theory Spec2Isabelle
  imports Complex_Main "HOL-Library.Char_ord" "HOL-Library.List_Lexorder"
begin

section \<open>RHOCore: JavaScript data, Rholang terms and the transcoders between them\<close>

text \<open>
  The development embeds the four functions exported as \<open>RHOCore\<close> by \<open>src/main.js\<close>:
  \<open>fromJSData\<close> (lines 317-361), \<open>toJSData\<close> (370-402), \<open>toRholang\<close> (411-444) and
  \<open>toByteArray\<close> (452-459). Thrown exceptions are values of type \<open>error\<close>, returned on
  the left of a sum.
\<close>

subsection \<open>JavaScript values\<close>

text \<open>
  The values \<open>fromJSData\<close> can be handed, by what \<open>typeof\<close>, \<open>=== null\<close> and
  \<open>Array.isArray\<close> tell apart. A number is a rational (the finite doubles are rationals;
  NaN and the infinities are left out). A function carries its source text, which is what
  \<open>String\<close> gives for it. An object is the list of its own enumerable string-keyed
  properties in insertion order: a property is read with \<open>obj_get\<close> (the first pair with
  that key) and the keys are \<open>Object_keys\<close>, so every list stands for an object. That
  JavaScript lists integer-like keys before the others is not modelled: the encoder sorts
  the keys, and the equality of objects below does not look at their order. A string is a
  list of code units, compared by code.
\<close>

datatype js_value =
    JUndefined
  | JNull
  | JBoolean bool
  | JNumber rat
  | JString string
  | JFunction string
  | JArray "js_value list"
  | JObject "(string \<times> js_value) list"

type_synonym js_object = "(string \<times> js_value) list"

fun typeof :: "js_value \<Rightarrow> string" where
  "typeof JUndefined = ''undefined''"
| "typeof JNull = ''object''"
| "typeof (JBoolean _) = ''boolean''"
| "typeof (JNumber _) = ''number''"
| "typeof (JString _) = ''string''"
| "typeof (JFunction _) = ''function''"
| "typeof (JArray _) = ''object''"
| "typeof (JObject _) = ''object''"

text \<open>\<open>Object.keys(obj)\<close>: each own key once.\<close>

definition Object_keys :: "js_object \<Rightarrow> string list" where
  "Object_keys obj = remdups (map fst obj)"

text \<open>\<open>obj[k]\<close>: \<open>undefined\<close> for a key the object does not have.\<close>

definition obj_get :: "js_object \<Rightarrow> string \<Rightarrow> js_value" where
  "obj_get obj k = (case map_of obj k of None \<Rightarrow> JUndefined | Some v \<Rightarrow> v)"

text \<open>
  Defining a property: an existing key keeps its place and takes the new value, a new key
  goes to the end.
\<close>

fun obj_put :: "string \<Rightarrow> js_value \<Rightarrow> js_object \<Rightarrow> js_object" where
  "obj_put k v [] = [(k, v)]"
| "obj_put k v ((k', v') # ps) =
     (if k' = k then (k, v) # ps else (k', v') # obj_put k v ps)"

text \<open>
  The object literal \<open>{ ...target, ...source }\<close>: the properties of \<open>source\<close> are defined
  on a copy of \<open>target\<close>, in order.
\<close>

definition spread :: "js_object \<Rightarrow> js_object \<Rightarrow> js_object" where
  "spread target source = foldl (\<lambda>obj (k, v). obj_put k v obj) target source"

text \<open>\<open>Array.prototype.join\<close> on strings.\<close>

fun join :: "string \<Rightarrow> string list \<Rightarrow> string" where
  "join sep [] = []"
| "join sep [x] = x"
| "join sep (x # y # ys) = x @ sep @ join sep (y # ys)"

subsection \<open>Numbers and strings as text\<close>

definition digit :: "nat \<Rightarrow> char" where
  "digit n = ''0123456789'' ! n"

fun show_nat :: "nat \<Rightarrow> string" where
  "show_nat n = (if n < 10 then [digit n] else show_nat (n div 10) @ [digit (n mod 10)])"

declare show_nat.simps [simp del]

definition show_int :: "int \<Rightarrow> string" where
  "show_int i = (if i < 0 then ''-'' @ show_nat (nat (- i)) else show_nat (nat i))"

definition is_integer :: "rat \<Rightarrow> bool" where
  "is_integer x = (of_int \<lfloor>x\<rfloor> = x)"

fun frac_digits :: "nat \<Rightarrow> rat \<Rightarrow> string" where
  "frac_digits 0 r = []"
| "frac_digits (Suc fuel) r =
     (if r = 0 then []
      else digit (nat \<lfloor>10 * r\<rfloor>) # frac_digits fuel (10 * r - of_int \<lfloor>10 * r\<rfloor>))"

text \<open>
  The text of a number (\<open>Number::toString\<close>, which \<open>JSON.stringify\<close> and \<open>String\<close>
  share): the decimal digits of an integer, as JavaScript prints every integer below
  \<open>10^21\<close> in absolute value. For a fraction the decimal expansion is given up to twenty
  places; no statement below depends on that branch.
\<close>

definition number_to_string :: "rat \<Rightarrow> string" where
  "number_to_string x =
     (if is_integer x then show_int \<lfloor>x\<rfloor>
      else (if x < 0 then ''-'' else []) @ show_nat (nat \<lfloor>\<bar>x\<bar>\<rfloor>) @ ''.''
           @ frac_digits 20 (\<bar>x\<bar> - of_int \<lfloor>\<bar>x\<bar>\<rfloor>))"

text \<open>
  \<open>String(v)\<close>, which a computed property key \<open>{ [v]: ... }\<close> applies to \<open>v\<close>. An array
  joins its elements with a comma, \<open>null\<close> and \<open>undefined\<close> elements giving nothing.
\<close>

fun to_string :: "js_value \<Rightarrow> string" where
  "to_string JUndefined = ''undefined''"
| "to_string JNull = ''null''"
| "to_string (JBoolean b) = (if b then ''true'' else ''false'')"
| "to_string (JNumber n) = number_to_string n"
| "to_string (JString s) = s"
| "to_string (JFunction src) = src"
| "to_string (JArray items) =
     join '','' (map (\<lambda>x. if x = JUndefined \<or> x = JNull then [] else to_string x) items)"
| "to_string (JObject _) = ''[object Object]''"

definition hex_digit :: "nat \<Rightarrow> char" where
  "hex_digit n = ''0123456789abcdef'' ! n"

text \<open>
  \<open>JSON.stringify\<close> on a string: the quotation mark and the backslash are escaped with
  a backslash, the control characters below U+0020 by their short escape where JSON has
  one and by \<open>\u00XX\<close> otherwise.
\<close>

definition json_escape :: "char \<Rightarrow> string" where
  "json_escape c =
     (if c = CHR 0x22 then [CHR 0x5C, CHR 0x22]
      else if c = CHR 0x5C then [CHR 0x5C, CHR 0x5C]
      else if c = CHR 0x08 then [CHR 0x5C, CHR ''b'']
      else if c = CHR 0x09 then [CHR 0x5C, CHR ''t'']
      else if c = CHR 0x0A then [CHR 0x5C, CHR ''n'']
      else if c = CHR 0x0C then [CHR 0x5C, CHR ''f'']
      else if c = CHR 0x0D then [CHR 0x5C, CHR ''r'']
      else if of_char c < (32 :: nat) then
        [CHR 0x5C, CHR ''u'', CHR ''0'', CHR ''0'',
         hex_digit (of_char c div 16), hex_digit (of_char c mod 16)]
      else [c])"

definition json_string :: "string \<Rightarrow> string" where
  "json_string s = [CHR 0x22] @ concat (map json_escape s) @ [CHR 0x22]"

subsection \<open>Rholang terms\<close>

text \<open>
  A \<open>Par\<close> object has the optional fields \<open>exprs\<close> and \<open>sends\<close> (absent is \<open>None\<close>);
  \<open>rest\<close> names whatever other fields it carries, which none of the functions reads. An
  \<open>Expr\<close> is told apart by its \<open>expr_instance\<close>: the four instances the functions know,
  and \<open>EOther\<close> with the name of any other. A \<open>Send\<close> has a channel, which is a quoted
  \<open>Par\<close> or has no \<open>quote\<close> field at all (\<open>ChanVar\<close>), and the list \<open>data\<close>.
\<close>

datatype par = Par (exprs: "expr list option") (sends: "send list option") (rest: "string list")
and expr = GBool bool | GInt rat | GString string | EListBody "par list" | EOther string
and send = Send (chan: channel) (data: "par list")
and channel = Quote par | ChanVar string

text \<open>
  The exceptions: the three \<open>throw new Error(...)\<close> of the source, by their message, and
  the \<open>TypeError\<close> of reading a property of \<open>undefined\<close>.
\<close>

datatype error =
    NoMapping string
  | ExprsNotPartOfRHOCore nat
  | NotRHOCore
  | TypeError

text \<open>The error kinds of the specification, by the exceptions that stand for them.\<close>

fun UnsupportedType :: "error \<Rightarrow> bool" where
  "UnsupportedType (NoMapping _) = True"
| "UnsupportedType _ = False"

fun MalformedTerm :: "error \<Rightarrow> bool" where
  "MalformedTerm (ExprsNotPartOfRHOCore _) = True"
| "MalformedTerm NotRHOCore = True"
| "MalformedTerm _ = False"

text \<open>
  \<open>xs.map(f)\<close> where \<open>f\<close> may throw: the results, or the first exception from the left.
\<close>

fun sequence :: "(error + 'a) list \<Rightarrow> error + 'a list" where
  "sequence [] = Inr []"
| "sequence (r # rs) =
     (case r of
        Inl e \<Rightarrow> Inl e
      | Inr y \<Rightarrow> (case sequence rs of Inl e \<Rightarrow> Inl e | Inr ys \<Rightarrow> Inr (y # ys)))"

subsection \<open>fromJSData\<close>

definition expr1 :: "expr \<Rightarrow> par" where
  "expr1 kv = Par (Some [kv]) None []"

text \<open>
  \<open>recur\<close> with \<open>toArry\<close> and \<open>keysValues\<close> unfolded in it. The cases follow the
  \<open>switch (typeof x)\<close>; the last equation is its \<open>default\<close>.
\<close>

function (sequential) fromJSData_recur :: "js_value \<Rightarrow> error + par" where
  "fromJSData_recur (JBoolean x) = Inr (expr1 (GBool x))"
| "fromJSData_recur (JNumber x) = Inr (expr1 (GInt x))"
| "fromJSData_recur (JString x) = Inr (expr1 (GString x))"
| "fromJSData_recur JNull = Inr (Par None None [])"
| "fromJSData_recur (JArray items) =
     (case sequence (map fromJSData_recur items) of
        Inl e \<Rightarrow> Inl e
      | Inr ps \<Rightarrow> Inr (expr1 (EListBody ps)))"
| "fromJSData_recur (JObject obj) =
     (case sequence (map (\<lambda>k.
              case fromJSData_recur (obj_get obj k) of
                Inl e \<Rightarrow> Inl e
              | Inr d \<Rightarrow> Inr (Send (Quote (expr1 (GString k))) [d]))
            (sort (Object_keys obj))) of
        Inl e \<Rightarrow> Inl e
      | Inr ss \<Rightarrow> Inr (Par None (Some ss) []))"
| "fromJSData_recur x = Inl (NoMapping (typeof x))"
  by pat_completeness auto
termination
proof (relation "measure size")
  show "wf (measure size)" by simp
next
  fix items :: "js_value list" and x
  assume "x \<in> set items"
  then show "(x, JArray items) \<in> measure size"
    by (induction items) auto
next
  fix obj :: js_object and k
  have "size (obj_get obj k) < Suc (size_list (size_prod (\<lambda>_. 0) size) obj)"
    unfolding obj_get_def by (induction obj) auto
  then show "(obj_get obj k, JObject obj) \<in> measure size"
    by simp
qed

definition fromJSData :: "js_value \<Rightarrow> error + par" where
  "fromJSData data' = fromJSData_recur data'"

subsection \<open>toJSData\<close>

text \<open>
  \<open>toJSData_entry\<close> is what the reducer computes from one send \<open>s\<close>: the key
  \<open>[recur(s.chan.quote)]\<close>, then the value \<open>recur(s.data[0])\<close>. Where \<open>s.chan.quote\<close>
  or \<open>s.data[0]\<close> is \<open>undefined\<close>, \<open>recur\<close> reads \<open>p.exprs\<close> of it and throws a
  \<open>TypeError\<close>. The reducer's result \<open>{ [key]: value, ...acc }\<close> is
  \<open>spread [(key, value)] acc\<close>, and an exception ends the \<open>reduce\<close>.
\<close>

fun toJSData_recur :: "par \<Rightarrow> error + js_value"
and toJSData_entry :: "send \<Rightarrow> error + (string \<times> js_value)"
where
  "toJSData_recur (Par exprs' sends' rest') =
    (case exprs' of
       Some (ex # exs) \<Rightarrow>
         if length (ex # exs) > 1 then Inl (ExprsNotPartOfRHOCore (length (ex # exs)))
         else (case ex of
             GBool b \<Rightarrow> Inr (JBoolean b)
           | GInt n \<Rightarrow> Inr (JNumber n)
           | GString s \<Rightarrow> Inr (JString s)
           | EListBody ps \<Rightarrow>
               (case sequence (map toJSData_recur ps) of
                  Inl e \<Rightarrow> Inl e
                | Inr vs \<Rightarrow> Inr (JArray vs))
           | EOther _ \<Rightarrow> Inl NotRHOCore)
     | _ \<Rightarrow>
        (case sends' of
           Some ss \<Rightarrow>
            (case foldl (\<lambda>acc s.
                    case acc of
                      Inl e \<Rightarrow> Inl e
                    | Inr a \<Rightarrow>
                       (case toJSData_entry s of
                          Inl e \<Rightarrow> Inl e
                        | Inr kv \<Rightarrow> Inr (spread [kv] a)))
                  (Inr []) ss of
               Inl e \<Rightarrow> Inl e
             | Inr obj \<Rightarrow> Inr (JObject obj))
         | None \<Rightarrow> Inr JNull))"
| "toJSData_entry (Send ch dat) =
    (case (case ch of Quote q \<Rightarrow> toJSData_recur q | ChanVar _ \<Rightarrow> Inl TypeError) of
       Inl e \<Rightarrow> Inl e
     | Inr c \<Rightarrow>
        (case (case dat of [] \<Rightarrow> Inl TypeError | d # _ \<Rightarrow> toJSData_recur d) of
           Inl e \<Rightarrow> Inl e
         | Inr v \<Rightarrow> Inr (to_string c, v)))"

definition toJSData :: "par \<Rightarrow> error + js_value" where
  "toJSData par' = toJSData_recur par'"

subsection \<open>toRholang\<close>

text \<open>\<open>src\<close> is \<open>JSON.stringify\<close>, on the three kinds of value it is applied to.\<close>

definition src_bool :: "bool \<Rightarrow> string" where
  "src_bool b = (if b then ''true'' else ''false'')"

definition src_int :: "rat \<Rightarrow> string" where
  "src_int n = number_to_string n"

definition src_string :: "string \<Rightarrow> string" where
  "src_string s = json_string s"

text \<open>
  \<open>toRholang_ea\<close> is the arrow function \<open>ea\<close>: the template evaluates
  \<open>recur(s.chan.quote)\<close>, then \<open>s.data.map(recur).join(', ')\<close>.
\<close>

fun toRholang_recur :: "par \<Rightarrow> error + string"
and toRholang_ea :: "send \<Rightarrow> error + string"
where
  "toRholang_recur (Par exprs' sends' rest') =
    (case exprs' of
       Some (ex # exs) \<Rightarrow>
         if length (ex # exs) > 1 then Inl (ExprsNotPartOfRHOCore (length (ex # exs)))
         else (case ex of
             GBool b \<Rightarrow> Inr (src_bool b)
           | GInt n \<Rightarrow> Inr (src_int n)
           | GString s \<Rightarrow> Inr (src_string s)
           | EListBody ps \<Rightarrow>
               (case sequence (map toRholang_recur ps) of
                  Inl e \<Rightarrow> Inl e
                | Inr items \<Rightarrow> Inr (''['' @ join '', '' items @ '']''))
           | EOther _ \<Rightarrow> Inl NotRHOCore)
     | _ \<Rightarrow>
        (case sends' of
           Some ss \<Rightarrow>
            (case sequence (map toRholang_ea ss) of
               Inl e \<Rightarrow> Inl e
             | Inr procs \<Rightarrow> Inr (join '' | '' procs))
         | None \<Rightarrow> Inr ''Nil''))"
| "toRholang_ea (Send ch dat) =
    (case (case ch of Quote q \<Rightarrow> toRholang_recur q | ChanVar _ \<Rightarrow> Inl TypeError) of
       Inl e \<Rightarrow> Inl e
     | Inr c \<Rightarrow>
        (case sequence (map toRholang_recur dat) of
           Inl e \<Rightarrow> Inl e
         | Inr ds \<Rightarrow> Inr (''@'' @ c @ ''!('' @ join '', '' ds @ '')'')))"

definition toRholang :: "par \<Rightarrow> error + string" where
  "toRholang par' = toRholang_recur par'"

subsection \<open>toByteArray\<close>

text \<open>
  The generated protobuf module \<open>./protobuf/messages\<close> is not part of the source, so
  its two functions are parameters: \<open>verify\<close> returns the reason a message is invalid, or
  \<open>null\<close> (\<open>None\<close>); \<open>encode\<close> (with \<open>.finish()\<close>) gives the bytes or throws. The
  statement \<open>Par.verify(termObj);\<close> evaluates the call and drops its result.
\<close>

definition toByteArray ::
  "(par \<Rightarrow> string option) \<Rightarrow> (par \<Rightarrow> 'e + nat list) \<Rightarrow> par \<Rightarrow> 'e + nat list" where
  "toByteArray Par_verify Par_encode termObj =
     (let _ = Par_verify termObj in Par_encode termObj)"

subsection \<open>The supported values and their equality\<close>

text \<open>
  The values the specification lets the encoder take: booleans, integer numbers, strings,
  \<open>null\<close>, arrays of supported values and objects whose property values are supported.
\<close>

fun supported :: "js_value \<Rightarrow> bool" where
  "supported (JBoolean _) = True"
| "supported (JNumber n) = is_integer n"
| "supported (JString _) = True"
| "supported JNull = True"
| "supported (JArray items) = (\<forall>x \<in> set items. supported x)"
| "supported (JObject obj) = (\<forall>(k, v) \<in> set obj. supported v)"
| "supported _ = False"

text \<open>
  Structural equality of values, an object being its key/value pairs in any order: the same
  keys, and equal values under each key.
\<close>

function (sequential) js_equal :: "js_value \<Rightarrow> js_value \<Rightarrow> bool" where
  "js_equal (JArray xs) (JArray ys) = list_all2 js_equal xs ys"
| "js_equal (JObject a) (JObject b) =
     (set (Object_keys a) = set (Object_keys b) \<and>
      (\<forall>k \<in> set (Object_keys a). js_equal (obj_get a k) (obj_get b k)))"
| "js_equal x y = (x = y)"
  by pat_completeness auto
termination
proof (relation "measure (\<lambda>(x, y). size x)")
  show "wf (measure (\<lambda>(x, y). size x))" by simp
next
  fix xs ys :: "js_value list" and x y
  assume "x \<in> set xs"
  then have "size x < Suc (size_list size xs)"
    by (induction xs) auto
  then show "((x, y), (JArray xs, JArray ys)) \<in> measure (\<lambda>(x, y). size x)"
    by simp
next
  fix a b :: js_object and k
  have "size (obj_get a k) < Suc (size_list (size_prod (\<lambda>_. 0) size) a)"
    unfolding obj_get_def by (induction a) auto
  then show "((obj_get a k, obj_get b k), (JObject a, JObject b)) \<in> measure (\<lambda>(x, y). size x)"
    by simp
qed

subsection \<open>The term model and the rendering rules of the specification\<close>





subsection \<open>Decoding the entries of a send list\<close>


definition reduce_entries :: "js_object \<Rightarrow> (string \<times> js_value) list \<Rightarrow> js_object" where
  "reduce_entries acc kvs = foldl (\<lambda>a kv. spread [kv] a) acc kvs"

text \<open>
  \<open>entry_renders s (c, rs)\<close>: the send \<open>s\<close> has a quoted channel that renders as \<open>c\<close>
  and payload elements that render as \<open>rs\<close>.
\<close>

definition entry_renders :: "send \<Rightarrow> string \<times> string list \<Rightarrow> bool" where
  "entry_renders s t =
     (case s of
        Send (Quote q) ds \<Rightarrow>
          toRholang q = Inr (fst t) \<and> sequence (map toRholang ds) = Inr (snd t)
      | _ \<Rightarrow> False)"

section \<open>Properties\<close>

subsection \<open>Exceptions in a map, objects, the reducer\<close>

lemma sequence_map_Inr_I:
  "list_all2 (\<lambda>x y. f x = Inr y) xs ys \<Longrightarrow> sequence (map f xs) = Inr ys"
  by (induction xs ys rule: list_all2_induct) auto

lemma sequence_map_Inr_D:
  "sequence (map f xs) = Inr ys \<Longrightarrow> list_all2 (\<lambda>x y. f x = Inr y) xs ys"
proof (induction xs arbitrary: ys)
  case Nil
  then show ?case by simp
next
  case (Cons x xs)
  then show ?case
    by (auto split: sum.splits)
qed

lemma sequence_map_Inr:
  "(sequence (map f xs) = Inr ys) = list_all2 (\<lambda>x y. f x = Inr y) xs ys"
  using sequence_map_Inr_I sequence_map_Inr_D by blast

lemma sequence_map_Inl:
  "sequence (map f xs) = Inl e \<Longrightarrow> \<exists>x \<in> set xs. f x = Inl e"
  by (induction xs) (auto split: sum.splits)

lemma sequence_append_Inl:
  "f x = Inl e \<Longrightarrow> \<exists>e'. sequence (map f (xs @ x # ys)) = Inl e'"
  by (induction xs) (auto split: sum.splits)

lemma map_of_obj_put: "map_of (obj_put k v obj) x = (if x = k then Some v else map_of obj x)"
  by (induction obj) auto

lemma keys_obj_put: "set (map fst (obj_put k v obj)) = insert k (set (map fst obj))"
  by (induction k v obj rule: obj_put.induct) auto

lemma distinct_obj_put:
  "distinct (map fst obj) \<Longrightarrow> distinct (map fst (obj_put k v obj))"
proof (induction obj)
  case Nil
  show ?case by simp
next
  case (Cons p obj)
  obtain k' v' where p: "p = (k', v')" by (cases p)
  show ?case
    using Cons keys_obj_put [of k v obj] p by auto
qed

lemma spread_Nil [simp]: "spread t [] = t"
  by (simp add: spread_def)

lemma spread_Cons [simp]: "spread t ((k, v) # s) = spread (obj_put k v t) s"
  by (simp add: spread_def)

lemma distinct_spread:
  "distinct (map fst t) \<Longrightarrow> distinct (map fst (spread t s))"
  by (induction s arbitrary: t) (auto simp: distinct_obj_put)

lemma map_of_spread:
  "distinct (map fst s) \<Longrightarrow>
   map_of (spread t s) x = (case map_of s x of Some y \<Rightarrow> Some y | None \<Rightarrow> map_of t x)"
proof (induction s arbitrary: t)
  case Nil
  show ?case by simp
next
  case (Cons p s)
  obtain k v where p: "p = (k, v)" by (cases p)
  from Cons.prems p have notin: "map_of s k = None" and d: "distinct (map fst s)"
    by (auto simp: map_of_eq_None_iff)
  show ?case
    using Cons.IH [OF d, of "obj_put k v t"] p notin
    by (auto simp: map_of_obj_put split: option.splits)
qed

lemma distinct_reduce_entries:
  "distinct (map fst acc) \<Longrightarrow> distinct (map fst (reduce_entries acc kvs))"
  unfolding reduce_entries_def
  by (induction kvs arbitrary: acc) (auto simp: distinct_spread)

lemma map_of_reduce_entries:
  "distinct (map fst acc) \<Longrightarrow>
   map_of (reduce_entries acc kvs) x =
     (case map_of acc x of Some y \<Rightarrow> Some y | None \<Rightarrow> map_of kvs x)"
  unfolding reduce_entries_def
proof (induction kvs arbitrary: acc)
  case Nil
  show ?case by (simp split: option.splits)
next
  case (Cons kv kvs)
  obtain k v where kv: "kv = (k, v)" by (cases kv)
  have d: "distinct (map fst (spread [kv] acc))"
    by (rule distinct_spread) simp
  show ?case
    using Cons.IH [OF d] Cons.prems kv
    by (auto simp: map_of_spread split: option.splits)
qed

lemma foldl_reduce_Inl:
  "foldl (\<lambda>acc s. case acc of Inl e \<Rightarrow> Inl e | Inr a \<Rightarrow> f a s) (Inl e) ss = Inl e"
  by (induction ss) auto

lemma foldl_reduce_entries:
  "foldl (\<lambda>acc s. case acc of Inl e \<Rightarrow> Inl e
          | Inr a \<Rightarrow> (case g s of Inl e \<Rightarrow> Inl e | Inr kv \<Rightarrow> Inr (spread [kv] a)))
     (Inr acc) ss =
   (case sequence (map g ss) of
      Inl e \<Rightarrow> Inl e
    | Inr kvs \<Rightarrow> Inr (reduce_entries acc kvs))"
proof (induction ss arbitrary: acc)
  case Nil
  show ?case by (simp add: reduce_entries_def)
next
  case (Cons s ss)
  show ?case
  proof (cases "g s")
    case (Inl e)
    then show ?thesis
      using foldl_reduce_Inl [of _ e ss] by simp
  next
    case (Inr kv)
    then show ?thesis
      using Cons.IH [of "spread [kv] acc"]
      by (simp add: reduce_entries_def split: sum.splits)
  qed
qed

lemma toJSData_recur_sends:
  "toJSData_recur (Par None (Some ss) r) =
     (case sequence (map toJSData_entry ss) of
        Inl e \<Rightarrow> Inl e
      | Inr kvs \<Rightarrow> Inr (JObject (reduce_entries [] kvs)))"
  by (simp add: foldl_reduce_entries split: sum.splits)

lemma toJSData_recur_expr1 [simp]:
  "toJSData_recur (expr1 (GBool b)) = Inr (JBoolean b)"
  "toJSData_recur (expr1 (GInt n)) = Inr (JNumber n)"
  "toJSData_recur (expr1 (GString s)) = Inr (JString s)"
  "toJSData_recur (expr1 (EListBody ps)) =
     (case sequence (map toJSData_recur ps) of Inl e \<Rightarrow> Inl e | Inr vs \<Rightarrow> Inr (JArray vs))"
  by (simp_all add: expr1_def)

lemma ex_list_all2:
  "\<forall>x \<in> set xs. \<exists>y. P x y \<Longrightarrow> \<exists>ys. list_all2 P xs ys"
proof (induction xs)
  case Nil
  show ?case by simp
next
  case (Cons x xs)
  then obtain y ys where "P x y" "list_all2 P xs ys"
    by auto
  then have "list_all2 P (x # xs) (y # ys)"
    by simp
  then show ?case ..
qed

lemma map_of_related:
  "list_all2 (\<lambda>kv k. fst kv = k \<and> P k (snd kv)) kvs ks \<Longrightarrow> k \<in> set ks \<Longrightarrow>
   \<exists>w. map_of kvs k = Some w \<and> P k w"
  by (induction kvs ks rule: list_all2_induct) auto

lemma map_fst_related:
  "list_all2 (\<lambda>kv k. fst kv = k \<and> P k (snd kv)) kvs ks \<Longrightarrow> map fst kvs = ks"
  by (induction kvs ks rule: list_all2_induct) auto

lemma keys_reduce_entries:
  "fst ` set (reduce_entries [] kvs) = fst ` set kvs"
proof -
  have "dom (map_of (reduce_entries [] kvs)) = dom (map_of kvs)"
    by (auto simp: dom_def map_of_reduce_entries)
  then show ?thesis
    by (simp add: dom_map_of_conv_image_fst)
qed

lemma set_Object_keys [simp]: "set (Object_keys obj) = fst ` set obj"
  by (simp add: Object_keys_def)

lemma obj_get_reduce_entries:
  "obj_get (reduce_entries [] kvs) k = obj_get kvs k"
  by (simp add: obj_get_def map_of_reduce_entries)

lemma supported_obj_get:
  "supported (JObject obj) \<Longrightarrow> k \<in> fst ` set obj \<Longrightarrow> supported (obj_get obj k)"
proof -
  assume s: "supported (JObject obj)" and k: "k \<in> fst ` set obj"
  then obtain v where v: "map_of obj k = Some v"
    by (metis weak_map_of_SomeI prod.collapse imageE)
  then have "(k, v) \<in> set obj"
    by (rule map_of_SomeD)
  with s have "supported v" by auto
  with v show ?thesis by (simp add: obj_get_def)
qed

lemma toJSData_entry_key:
  "toJSData_recur p = Inr w \<Longrightarrow>
   toJSData_entry (Send (Quote (expr1 (GString k))) [p]) = Inr (k, w)"
  by simp

lemma round_trip_recur:
  "supported v \<Longrightarrow>
   \<exists>p w. fromJSData_recur v = Inr p \<and> toJSData_recur p = Inr w \<and> js_equal w v"
proof (induction v rule: fromJSData_recur.induct)
  case (5 items)
  let ?R = "\<lambda>x pw. fromJSData_recur x = Inr (fst pw) \<and> toJSData_recur (fst pw) = Inr (snd pw)
              \<and> js_equal (snd pw) x"
  from 5 have "\<forall>x \<in> set items. \<exists>pw. ?R x pw"
    by auto
  then have "\<exists>pws. list_all2 ?R items pws"
    by (rule ex_list_all2)
  then obtain pws where pws: "list_all2 ?R items pws" ..
  have a: "list_all2 (\<lambda>x p. fromJSData_recur x = Inr p) items (map fst pws)"
    using pws by (simp add: list_all2_conv_all_nth)
  have b: "list_all2 (\<lambda>p w. toJSData_recur p = Inr w) (map fst pws) (map snd pws)"
    using pws by (simp add: list_all2_conv_all_nth)
  have c: "list_all2 js_equal (map snd pws) items"
    using pws by (simp add: list_all2_conv_all_nth)
  show ?case
    using sequence_map_Inr_I [OF a] sequence_map_Inr_I [OF b] c by simp
next
  case (6 obj)
  let ?ks = "sort (Object_keys obj)"
  let ?f = "\<lambda>k. case fromJSData_recur (obj_get obj k) of
                   Inl e \<Rightarrow> Inl e
                 | Inr d \<Rightarrow> Inr (Send (Quote (expr1 (GString k))) [d])"
  let ?R = "\<lambda>k sw. ?f k = Inr (fst sw) \<and> toJSData_entry (fst sw) = Inr (k, snd sw)
              \<and> js_equal (snd sw) (obj_get obj k)"
  have "\<forall>k \<in> set ?ks. \<exists>sw. ?R k sw"
  proof
    fix k
    assume k: "k \<in> set ?ks"
    then have "supported (obj_get obj k)"
      using "6.prems" supported_obj_get by simp
    with "6.IH" [OF k] obtain p w where
      "fromJSData_recur (obj_get obj k) = Inr p" "toJSData_recur p = Inr w"
      "js_equal w (obj_get obj k)"
      by blast
    then have "?R k (Send (Quote (expr1 (GString k))) [p], w)"
      by simp
    then show "\<exists>sw. ?R k sw" ..
  qed
  then have "\<exists>sws. list_all2 ?R ?ks sws"
    by (rule ex_list_all2)
  then obtain sws where sws: "list_all2 ?R ?ks sws" ..
  let ?kvs = "map (\<lambda>(k, sw). (k, snd sw)) (zip ?ks sws)"
  have len: "length sws = length ?ks"
    using list_all2_lengthD [OF sws] by simp
  have a: "list_all2 (\<lambda>k s. ?f k = Inr s) ?ks (map fst sws)"
    using sws by (simp add: list_all2_conv_all_nth)
  have b: "list_all2 (\<lambda>s kv. toJSData_entry s = Inr kv) (map fst sws) ?kvs"
    using sws by (simp add: list_all2_conv_all_nth)
  have c: "list_all2 (\<lambda>kv k. fst kv = k \<and> js_equal (snd kv) (obj_get obj k)) ?kvs ?ks"
    using sws by (simp add: list_all2_conv_all_nth)
  have enc: "fromJSData_recur (JObject obj) = Inr (Par None (Some (map fst sws)) [])"
    using sequence_map_Inr_I [OF a] by simp
  have dec: "toJSData_recur (Par None (Some (map fst sws)) []) =
               Inr (JObject (reduce_entries [] ?kvs))"
    using sequence_map_Inr_I [OF b] by (simp only: toJSData_recur_sends sum.case)
  have keys: "map fst ?kvs = ?ks"
    using c by (rule map_fst_related)
  have eq_keys: "set (Object_keys (reduce_entries [] ?kvs)) = set (Object_keys obj)"
  proof -
    have "fst ` set (reduce_entries [] ?kvs) = set (map fst ?kvs)"
      by (simp only: keys_reduce_entries set_map)
    also have "\<dots> = set ?ks"
      by (simp only: keys)
    also have "\<dots> = fst ` set obj"
      by simp
    finally show ?thesis
      by simp
  qed
  have eq_vals: "js_equal (obj_get (reduce_entries [] ?kvs) k) (obj_get obj k)"
    if "k \<in> set (Object_keys obj)" for k
  proof -
    from that have "k \<in> set ?ks" by simp
    from map_of_related [OF c this] obtain w where
      w: "map_of ?kvs k = Some w" "js_equal w (obj_get obj k)"
      by blast
    have "obj_get (reduce_entries [] ?kvs) k = obj_get ?kvs k"
      by (rule obj_get_reduce_entries)
    also have "\<dots> = w"
      using w(1) by (simp add: obj_get_def)
    finally show ?thesis
      using w(2) by simp
  qed
  have "js_equal (JObject (reduce_entries [] ?kvs)) (JObject obj)"
    using eq_keys eq_vals by simp
  with enc dec show ?case by blast
qed (simp_all add: expr1_def)

subsection \<open>Entries of a send list\<close>




lemma toRholang_eq: "toRholang = toRholang_recur"
  by (simp add: fun_eq_iff toRholang_def)

lemma entry_renders_ea:
  "entry_renders s t \<Longrightarrow>
   toRholang_ea s = Inr (''@'' @ fst t @ ''!('' @ join '', '' (snd t) @ '')'')"
  by (auto simp: entry_renders_def toRholang_eq split: send.splits channel.splits)

lemma toJSData_entry_empty: "\<exists>e. toJSData_entry (Send ch []) = Inl e"
  by (auto split: sum.splits channel.splits)

subsection \<open>Terms of the specification as \<open>Par\<close> objects\<close>


lemma toRholang_recur_sends:
  "toRholang_recur (Par None (Some ss) r) =
     (case sequence (map toRholang_ea ss) of
        Inl e \<Rightarrow> Inl e
      | Inr procs \<Rightarrow> Inr (join '' | '' procs))"
  by simp




section \<open>The claims\<close>

subsection \<open>Round trip\<close>

text \<open>
  C1. For every value built from booleans, integers, strings, \<open>null\<close>, arrays and
  string-keyed maps of such values, nested to any depth, \<open>fromJSData\<close> succeeds,
  \<open>toJSData\<close> succeeds on its result, and the value decoded is structurally equal to
  the one encoded, a map being its key/value pairs whatever the order of the keys.
\<close>

theorem round_trip:
  assumes "supported v"
  shows "\<exists>p w. fromJSData v = Inr p \<and> toJSData p = Inr w \<and> js_equal w v"
  using round_trip_recur [OF assms] by (simp add: fromJSData_def toJSData_def)

theorem round_trip_witness:
  "supported (JObject [(''x'', JObject [(''y'', JNumber 5)]), (''a'', JArray [JBoolean True, JNull, JString ''s''])])
   \<and> (\<exists>p w. fromJSData (JObject [(''x'', JObject [(''y'', JNumber 5)]), (''a'', JArray [JBoolean True, JNull, JString ''s''])]) = Inr p
        \<and> toJSData p = Inr w
        \<and> js_equal w (JObject [(''x'', JObject [(''y'', JNumber 5)]), (''a'', JArray [JBoolean True, JNull, JString ''s''])]))"
proof -
  have s: "supported (JObject [(''x'', JObject [(''y'', JNumber 5)]), (''a'', JArray [JBoolean True, JNull, JString ''s''])])"
    by (simp add: is_integer_def)
  show ?thesis
    using s round_trip [OF s] by blast
qed

subsection \<open>Canonical key order\<close>



subsection \<open>Rendering\<close>



subsection \<open>Numbers that are not integers\<close>

text \<open>
  C4. The claim asks that a number with a fractional part be refused. The \<open>number\<close>
  case of \<open>fromJSData\<close>, under the comment \<open>ISSUE: only integers\<close>, has no test of the
  number: \<open>1.5\<close> is encoded as the integer literal \<open>g_int: 1.5\<close>.
\<close>

theorem fractional_number_encoded:
  "\<not> is_integer (3 / 2)
   \<and> fromJSData (JNumber (3 / 2)) = Inr (Par (Some [GInt (3 / 2)]) None [])"
proof -
  have "\<lfloor>3 / 2 :: rat\<rfloor> = 1"
    by linarith
  then show ?thesis
    by (simp add: fromJSData_def expr1_def is_integer_def)
qed

text \<open>The values without a mapping are refused, by their \<open>typeof\<close>.\<close>

lemma fromJSData_no_mapping:
  "fromJSData JUndefined = Inl (NoMapping ''undefined'')
   \<and> fromJSData (JFunction f) = Inl (NoMapping ''function'')
   \<and> UnsupportedType (NoMapping ''undefined'') \<and> UnsupportedType (NoMapping ''function'')"
  by (simp add: fromJSData_def)

subsection \<open>Payload length\<close>

text \<open>
  C5, as claimed: a send entry whose payload has no element, or more than one, makes
  \<open>toJSData\<close> and \<open>toRholang\<close> fail. It does not: with the payload \<open>[1, 2]\<close>
  \<open>toJSData\<close> returns the map with the first element and \<open>toRholang\<close> prints both,
  and \<open>toRholang\<close> prints an empty payload as \<open>()\<close>.
\<close>

theorem payload_length_counterexample:
  \<open>toJSData (Par None (Some [Send (Quote (expr1 (GString ''a''))) [expr1 (GInt 1), expr1 (GInt 2)]]) [])
     = Inr (JObject [(''a'', JNumber 1)])
   \<and> toRholang (Par None (Some [Send (Quote (expr1 (GString ''a''))) [expr1 (GInt 1), expr1 (GInt 2)]]) [])
     = Inr ''@"a"!(1, 2)''
   \<and> toRholang (Par None (Some [Send (Quote (expr1 (GString ''a''))) []]) [])
     = Inr ''@"a"!()''\<close>
  by (simp add: toJSData_def toRholang_def expr1_def src_string_def src_int_def json_string_def
      json_escape_def number_to_string_def is_integer_def show_int_def show_nat.simps digit_def)

text \<open>
  C5, amended. \<open>toJSData\<close> fails on a send list with an entry of empty payload (the
  \<open>TypeError\<close> of reading the missing element, or an earlier exception) and returns
  nothing; of a longer payload it decodes the first element and ignores the others.
  \<open>toRholang\<close> does not look at the length: every entry is rendered with all its
  payload elements, joined by a comma and a space.
\<close>

theorem payload_length_unchecked:
  "(\<exists>e. toJSData (Par None (Some (ss @ Send ch [] # ss')) r) = Inl e)
   \<and> toJSData (Par None (Some (ss @ Send ch (d # ds) # ss')) r)
       = toJSData (Par None (Some (ss @ Send ch [d] # ss')) r)
   \<and> (list_all2 entry_renders ts cs \<longrightarrow>
        toRholang (Par None (Some ts) r)
          = Inr (join '' | '' (map (\<lambda>c. ''@'' @ fst c @ ''!('' @ join '', '' (snd c) @ '')'') cs)))"
proof (intro conjI impI)
  from toJSData_entry_empty obtain e where "toJSData_entry (Send ch []) = Inl e" ..
  from sequence_append_Inl [of toJSData_entry "Send ch []" e ss ss', OF this]
  show "\<exists>e. toJSData (Par None (Some (ss @ Send ch [] # ss')) r) = Inl e"
    by (auto simp only: toJSData_def toJSData_recur_sends sum.case)
next
  have "toJSData_entry (Send ch (d # ds)) = toJSData_entry (Send ch [d])"
    by (simp split: sum.splits)
  then have "map toJSData_entry (ss @ Send ch (d # ds) # ss')
             = map toJSData_entry (ss @ Send ch [d] # ss')"
    by simp
  then show "toJSData (Par None (Some (ss @ Send ch (d # ds) # ss')) r)
       = toJSData (Par None (Some (ss @ Send ch [d] # ss')) r)"
    by (simp only: toJSData_def toJSData_recur_sends)
next
  let ?text = "\<lambda>c. ''@'' @ fst c @ ''!('' @ join '', '' (snd c) @ '')''"
  assume "list_all2 entry_renders ts cs"
  then have "list_all2 (\<lambda>s c. toRholang_ea s = Inr (?text c)) ts cs"
    by (rule list_all2_mono) (rule entry_renders_ea)
  then have "list_all2 (\<lambda>s p. toRholang_ea s = Inr p) ts (map ?text cs)"
    by (simp only: list_all2_map2)
  from sequence_map_Inr_I [OF this]
  show "toRholang (Par None (Some ts) r) = Inr (join '' | '' (map ?text cs))"
    by (simp only: toRholang_def toRholang_recur_sends sum.case)
qed

theorem payload_length_unchecked_witness:
  \<open>list_all2 entry_renders
     [Send (Quote (expr1 (GString ''a''))) [expr1 (GInt 1), expr1 (GInt 2)],
      Send (Quote (expr1 (GString ''b''))) []]
     [(''"a"'', [''1'', ''2'']), (''"b"'', [])]
   \<and> toRholang (Par None (Some
        [Send (Quote (expr1 (GString ''a''))) [expr1 (GInt 1), expr1 (GInt 2)],
         Send (Quote (expr1 (GString ''b''))) []]) [])
      = Inr ''@"a"!(1, 2) | @"b"!()''\<close>
proof -
  have r: \<open>list_all2 entry_renders
     [Send (Quote (expr1 (GString ''a''))) [expr1 (GInt 1), expr1 (GInt 2)],
      Send (Quote (expr1 (GString ''b''))) []]
     [(''"a"'', [''1'', ''2'']), (''"b"'', [])]\<close>
    by (simp add: entry_renders_def toRholang_def expr1_def src_string_def src_int_def
        json_string_def json_escape_def number_to_string_def is_integer_def show_int_def
        show_nat.simps digit_def)
  from payload_length_unchecked
    [where ts = "[Send (Quote (expr1 (GString ''a''))) [expr1 (GInt 1), expr1 (GInt 2)],
                  Send (Quote (expr1 (GString ''b''))) []]"
       and cs = "[([CHR 0x22, CHR ''a'', CHR 0x22], [''1'', ''2'']), ([CHR 0x22, CHR ''b'', CHR 0x22], [])]"
       and r = "[]"] r
  show ?thesis
    by simp
qed

subsection \<open>Channels that are not strings\<close>




subsection \<open>Entries with the same key\<close>




subsection \<open>Nodes with several literals\<close>

text \<open>
  C8. A node whose \<open>exprs\<close> holds more than one element is refused by \<open>toJSData\<close> and
  by \<open>toRholang\<close>, both with the exception \<open>n exprs not part of RHOCore\<close>, which is a
  malformed-term error.
\<close>

theorem multi_literal_rejected:
  assumes "1 < length es"
  shows "toJSData (Par (Some es) ss r) = Inl (ExprsNotPartOfRHOCore (length es))
       \<and> toRholang (Par (Some es) ss r) = Inl (ExprsNotPartOfRHOCore (length es))
       \<and> MalformedTerm (ExprsNotPartOfRHOCore (length es))"
proof (cases es)
  case Nil
  with assms show ?thesis by simp
next
  case (Cons ex exs)
  with assms show ?thesis
    by (simp add: toJSData_def toRholang_def)
qed

theorem multi_literal_rejected_witness:
  "1 < length [GBool True, GInt 1]
   \<and> toJSData (Par (Some [GBool True, GInt 1]) None []) = Inl (ExprsNotPartOfRHOCore 2)
   \<and> toRholang (Par (Some [GBool True, GInt 1]) None []) = Inl (ExprsNotPartOfRHOCore 2)
   \<and> MalformedTerm (ExprsNotPartOfRHOCore 2)"
  using multi_literal_rejected [of "[GBool True, GInt 1]" None "[]"] by simp

subsection \<open>Validation before serialisation\<close>

text \<open>
  C9. The claim asks that \<open>toByteArray\<close> fail on a term the schema refuses.
  \<open>toByteArray\<close> calls \<open>Par.verify\<close> and drops what it returns, so its result is that of
  \<open>Par.encode\<close> alone, whatever \<open>Par.verify\<close> has found.
\<close>

theorem toByteArray_drops_verify:
  "toByteArray Par_verify Par_encode termObj = Par_encode termObj"
  by (simp add: toByteArray_def)

subsection \<open>Nodes with neither literals nor sends\<close>

text \<open>
  C10. For a node whose \<open>exprs\<close> is absent or empty and which has no \<open>sends\<close>,
  \<open>toJSData\<close> returns \<open>null\<close> and \<open>toRholang\<close> returns \<open>Nil\<close>, whatever other
  fields the node carries.
\<close>

theorem neither_exprs_nor_sends:
  assumes "es = None \<or> es = Some []"
  shows "toJSData (Par es None r) = Inr JNull \<and> toRholang (Par es None r) = Inr ''Nil''"
  using assms by (auto simp: toJSData_def toRholang_def)

theorem neither_exprs_nor_sends_witness:
  "toJSData (Par (Some []) None [''receives'', ''news'']) = Inr JNull
   \<and> toRholang (Par (Some []) None [''receives'', ''news'']) = Inr ''Nil''"
  using neither_exprs_nor_sends [of "Some []" "[''receives'', ''news'']"] by simp

end
